theory Spec2Isabelle
  imports Main
begin

section \<open>ChatDataset (src/nanotron/data/chat_dataset.py)\<close>

text \<open>
  The iterator of \<open>ChatDataset\<close> turns tokenized conversations into training items. With
  \<open>pack_samples\<close> it concatenates samples in three parallel buffers and yields a window each
  time the buffer grows past \<open>1 + sequence_length\<close>; without it, every sample is padded to a
  multiple of \<open>sp_chunks\<close> and yielded on its own.

  Python lists are HOL lists, \<open>len\<close> is a \<open>nat\<close>, the configuration integers are \<open>int\<close>.
  \<open>np.array(xs, dtype=np.int32)\<close> is modelled by the list \<open>xs\<close> itself. A failed
  \<open>assert\<close> and a modulo by zero are the error values of the model.
\<close>

datatype error = AssertionError | ZeroDivisionError

type_synonym tokenized = "int list \<times> bool list"

subsection \<open>Python slices with a negated length\<close>

text \<open>
  \<open>xs[:-n]\<close> for \<open>n = len(...)\<close>, so \<open>n \<ge> 0\<close>. Python evaluates \<open>-n\<close> first: for \<open>n = 0\<close>
  the slice is \<open>xs[:0]\<close>, the empty list; for \<open>n > 0\<close> the stop index is \<open>len(xs) - n\<close>,
  clamped at \<open>0\<close>.
\<close>

definition neg_slice :: "'a list \<Rightarrow> nat \<Rightarrow> 'a list" where
  "neg_slice xs n = (if n = 0 then [] else take (length xs - n) xs)"

subsection \<open>The label and position helpers of nanotron.data.collator\<close>

text \<open>Modelled from the spec: \<open>build_labels_completions_only\<close> of nanotron/data/collator.py is
  not among the sources. Spec 4.2 (CompletionsOnly): the result has the length of the tokens,
  a position is trainable only if it lies within a completion span, every other position
  is not (\<open>[F,F,T,T]\<close> gives \<open>[0,0,1,1]\<close>).
\<close>

definition build_labels_completions_only :: "int list \<Rightarrow> bool list \<Rightarrow> bool list" where
  "build_labels_completions_only input_ids is_completitions =
     take (length input_ids) is_completitions
       @ replicate (length input_ids - length is_completitions) False"

text \<open>Modelled from the spec: \<open>build_labels\<close> of nanotron/data/collator.py is not among the
  sources. Spec 4.2 (Full): every position is trainable, the completion flags are ignored,
  the result has the length of the tokens.
\<close>

definition build_labels :: "int list \<Rightarrow> bool list \<Rightarrow> bool list" where
  "build_labels input_ids is_completitions = replicate (length input_ids) True"

text \<open>Modelled from the spec: \<open>build_position_ids\<close> of nanotron/data/collator.py is not among
  the sources. Spec 4.3 (Reset-at-boundary): the position ids cover the whole window and
  restart at 0 at the start of each sub-sample.
\<close>

definition build_position_ids :: "nat list \<Rightarrow> int \<Rightarrow> nat list" where
  "build_position_ids lengths sequence_length = concat (map (\<lambda>l. [0..<l]) lengths)"

text \<open>Modelled from the spec: \<open>build_position_ids_dummy\<close> of nanotron/data/collator.py is not
  among the sources. Spec 4.3 (Continuous): the position ids cover the whole window and
  increase by 1 across it, whatever the sample boundaries.
\<close>

definition build_position_ids_dummy :: "nat list \<Rightarrow> int \<Rightarrow> nat list" where
  "build_position_ids_dummy lengths sequence_length = [0..<sum_list lengths]"

subsection \<open>The dataset object\<close>

text \<open>
  The fields of \<open>self\<close> that \<open>__iter__\<close> reads. \<open>'r\<close> is the type of a record of the
  streaming dataset; \<open>dataset\<close> is the order in which one pass over \<open>iter(self.dataset)\<close>
  delivers them. \<open>chat_tokenizer\<close> stands for
  \<open>self.chat_tokenizer(sample[self.conversation_column_name])\<close>, \<open>apply_chat_template\<close> for
  \<open>self.debug_tokenizer.apply_chat_template(sample["conversations"])\<close> and \<open>pad_token_id\<close>
  for \<open>self.chat_tokenizer.tokenizer.pad_token_id\<close>: the three come from outside the file.
\<close>

record 'r ChatDataset =
  chat_tokenizer :: "'r \<Rightarrow> tokenized"
  apply_chat_template :: "'r \<Rightarrow> int list"
  pad_token_id :: int
  dataset :: "'r list"
  sequence_length :: int
  pack_samples :: bool
  sp_chunks :: int
  create_labels :: "int list \<Rightarrow> bool list \<Rightarrow> bool list"
  create_position_ids :: "nat list \<Rightarrow> int \<Rightarrow> nat list"

text \<open>\<open>__init__\<close>, lines 61 to 85, for the fields above.\<close>

definition ChatDataset_init ::
  "('r \<Rightarrow> tokenized) \<Rightarrow> ('r \<Rightarrow> int list) \<Rightarrow> int \<Rightarrow> 'r list
     \<Rightarrow> int \<Rightarrow> bool \<Rightarrow> bool \<Rightarrow> bool \<Rightarrow> int \<Rightarrow> 'r ChatDataset" where
  "ChatDataset_init tokenizer template pad records
       sequence_length' train_on_completions_only remove_cross_attention pack_samples'
       sp_ranks_size =
     \<lparr> chat_tokenizer = tokenizer,
       apply_chat_template = template,
       pad_token_id = pad,
       dataset = records,
       sequence_length = sequence_length',
       pack_samples = pack_samples',
       sp_chunks = (if sp_ranks_size > 1 then sp_ranks_size * 2 else 1),
       create_labels =
         (if train_on_completions_only then build_labels_completions_only else build_labels),
       create_position_ids =
         (if remove_cross_attention then build_position_ids else build_position_ids_dummy) \<rparr>"

subsection \<open>Yielded items\<close>

text \<open>
  The two dictionaries that \<open>__iter__\<close> yields: the packed window of line 136 and the padded
  single sample of line 164.
\<close>

datatype item =
    PackedWindow (input_ids: "int list") (label_mask: "int list") (position_ids: "nat list")
  | NonPackedItem (input_ids: "int list") (input_mask: "int list") (label_mask: "int list")

subsection \<open>The packing path, lines 108 to 140\<close>

record buffers =
  buffer_tokens :: "int list"
  buffer_is_completition :: "bool list"
  buffer_lengths :: "nat list"

text \<open>Lines 93 to 95: the buffers at the start of \<open>__iter__\<close>.\<close>

definition empty_buffers :: buffers where
  "empty_buffers = \<lparr> buffer_tokens = [], buffer_is_completition = [], buffer_lengths = [] \<rparr>"

text \<open>Lines 109 to 111: the sample is appended to the three buffers.\<close>

definition extend_buffers :: "buffers \<Rightarrow> tokenized \<Rightarrow> buffers" where
  "extend_buffers b s =
     \<lparr> buffer_tokens = buffer_tokens b @ fst s,
       buffer_is_completition = buffer_is_completition b @ snd s,
       buffer_lengths = buffer_lengths b @ [length (fst s)] \<rparr>"

text \<open>
  Lines 115 to 117: \<open>sample_tokens\<close>, \<open>sample_completitions\<close> and \<open>sample_lengths\<close>, cut
  from the extended buffers with \<open>n = len(tokens)\<close>.
\<close>

definition pop_last_sample :: "buffers \<Rightarrow> nat \<Rightarrow> int list \<times> bool list \<times> nat list" where
  "pop_last_sample b n =
     (neg_slice (buffer_tokens b) n,
      neg_slice (buffer_is_completition b) n,
      neg_slice (buffer_lengths b) 1)"

text \<open>
  One pass through lines 109 to 140 for one tokenized sample: the new buffers and the
  window, if one is yielded, or the \<open>AssertionError\<close> of line 120.
\<close>

definition pack_sample ::
  "'r ChatDataset \<Rightarrow> buffers \<Rightarrow> tokenized \<Rightarrow> error + (buffers \<times> item option)" where
  "pack_sample self b s =
     (case s of (tokens, is_completition) \<Rightarrow>
        let max_buffer_token_len = 1 + sequence_length self;
            b1 = extend_buffers b (tokens, is_completition)
        in if int (length (buffer_tokens b1)) > max_buffer_token_len then
             (case pop_last_sample b1 (length tokens) of
                (sample_tokens, sample_completitions, sample_lengths) \<Rightarrow>
                  if \<not> (length sample_tokens = length sample_completitions
                         \<and> length sample_completitions = sum_list sample_lengths)
                  then Inl AssertionError
                  else Inr
                    (\<lparr> buffer_tokens = tokens,
                       buffer_is_completition = is_completition,
                       buffer_lengths = [length tokens] \<rparr>,
                     Some (PackedWindow sample_tokens
                       (map (\<lambda>x. if x then 1 else 0)
                          (create_labels self sample_tokens sample_completitions))
                       (create_position_ids self sample_lengths (sequence_length self)))))
           else Inr (b1, None))"

text \<open>
  The packing path over a finite run of tokenized samples: the windows yielded, in order,
  and either the buffers left or the error that ended the run.
\<close>

fun pack_all ::
  "'r ChatDataset \<Rightarrow> buffers \<Rightarrow> tokenized list \<Rightarrow> item list \<times> (error + buffers)" where
  "pack_all self b [] = ([], Inr b)"
| "pack_all self b (s # ss) =
     (case pack_sample self b s of
        Inl e \<Rightarrow> ([], Inl e)
      | Inr (b', out) \<Rightarrow>
          (case pack_all self b' ss of
             (outs, r) \<Rightarrow> ((case out of None \<Rightarrow> [] | Some w \<Rightarrow> [w]) @ outs, r)))"

subsection \<open>The non-packing path, lines 142 to 168\<close>

text \<open>
  \<open>[x] * pad_amount\<close> is the empty list for a negative \<open>pad_amount\<close>, hence \<open>nat\<close>.
  The result is the item yielded, or the error of line 146 (modulo by zero) or of the
  assertions of lines 160 and 161.
\<close>

definition pad_sample :: "'r ChatDataset \<Rightarrow> tokenized \<Rightarrow> error + item" where
  "pad_sample self s =
     (case s of (tokens, is_completition) \<Rightarrow>
        let is_completition = create_labels self tokens is_completition;
            input_mask = replicate (length tokens) (1 :: int)
        in if sp_chunks self = 0 then Inl ZeroDivisionError
           else
             let rem = int (length tokens) mod sp_chunks self;
                 (tokens, is_completition, input_mask) =
                   (if rem \<noteq> 0
                    then
                      let pad_amount = sp_chunks self - rem
                      in (tokens @ replicate (nat pad_amount) (pad_token_id self),
                          is_completition @ replicate (nat pad_amount) False,
                          input_mask @ replicate (nat pad_amount) 0)
                    else (tokens, is_completition, input_mask));
                 (tokens, is_completition, input_mask) =
                   (if sp_chunks self > 1
                    then (tokens @ [pad_token_id self],
                          is_completition @ [False],
                          input_mask @ [0])
                    else (tokens, is_completition, input_mask))
             in if length tokens \<noteq> length input_mask then Inl AssertionError
                else if length input_mask \<noteq> length is_completition then Inl AssertionError
                else Inr (NonPackedItem tokens input_mask
                            (map (\<lambda>x. if x then 1 else 0) is_completition)))"

subsection \<open>The generator, lines 91 to 172\<close>

text \<open>
  The local state of the generator: what is left of the current pass over the dataset, the
  buffers, \<open>num_samples\<close>, and how often the re-loop message of line 172 was printed.
\<close>

record 'r iter_state =
  source :: "'r list"
  buffers :: buffers
  num_samples :: nat
  relooped :: nat

definition iter_init :: "'r ChatDataset \<Rightarrow> 'r iter_state" where
  "iter_init self =
     \<lparr> source = dataset self, buffers = empty_buffers, num_samples = 0, relooped = 0 \<rparr>"

text \<open>The body of the \<open>for\<close> loop, lines 100 to 169, for one record.\<close>

definition process_sample ::
  "'r ChatDataset \<Rightarrow> 'r iter_state \<Rightarrow> 'r \<Rightarrow> error + ('r iter_state \<times> item option)" where
  "process_sample self st sample =
     (case chat_tokenizer self sample of (tokens, is_completition) \<Rightarrow>
        if apply_chat_template self sample \<noteq> neg_slice tokens 1 then Inl AssertionError
        else if pack_samples self then
          (case pack_sample self (buffers st) (tokens, is_completition) of
             Inl e \<Rightarrow> Inl e
           | Inr (b, out) \<Rightarrow> Inr (st\<lparr>buffers := b\<rparr>, out))
        else
          (case pad_sample self (tokens, is_completition) of
             Inl e \<Rightarrow> Inl e
           | Inr out \<Rightarrow> Inr (st\<lparr>num_samples := num_samples st + 1\<rparr>, Some out)))"

text \<open>
  One step of the generator: the next record of the pass is processed, or, when the pass
  is exhausted, the message is printed and \<open>while True\<close> opens a new pass over the dataset.
\<close>

definition iter_step ::
  "'r ChatDataset \<Rightarrow> 'r iter_state \<Rightarrow> error + ('r iter_state \<times> item option)" where
  "iter_step self st =
     (case source st of
        [] \<Rightarrow> Inr (st\<lparr>source := dataset self, relooped := relooped st + 1\<rparr>, None)
      | sample # rest \<Rightarrow> process_sample self (st\<lparr>source := rest\<rparr>) sample)"

text \<open>\<open>k\<close> steps of the generator: the items yielded and the state reached, or the error.\<close>

fun iter_run ::
  "'r ChatDataset \<Rightarrow> nat \<Rightarrow> 'r iter_state \<Rightarrow> item list \<times> (error + 'r iter_state)" where
  "iter_run self 0 st = ([], Inr st)"
| "iter_run self (Suc k) st =
     (case iter_step self st of
        Inl e \<Rightarrow> ([], Inl e)
      | Inr (st', out) \<Rightarrow>
          (case iter_run self k st' of
             (outs, r) \<Rightarrow> ((case out of None \<Rightarrow> [] | Some w \<Rightarrow> [w]) @ outs, r)))"

subsection \<open>The buffer invariant\<close>

text \<open>
  The three buffers describe the same tokens: the recorded sample lengths add up to the
  number of buffered tokens, and there is one completion flag for each token.
\<close>

definition buffers_consistent :: "buffers \<Rightarrow> bool" where
  "buffers_consistent b \<longleftrightarrow>
     sum_list (buffer_lengths b) = length (buffer_tokens b)
     \<and> length (buffer_tokens b) = length (buffer_is_completition b)"

subsection \<open>Two small datasets\<close>

text \<open>
  A dataset of three records, each of them its own token list; a token is a completion
  token when it is even, and the chat template gives all tokens but the last. The first
  dataset packs with \<open>sequence_length = 2\<close>, the second pads for two sequence-parallel
  ranks.
\<close>

definition example_dataset :: "int list ChatDataset" where
  "example_dataset =
     ChatDataset_init (\<lambda>r. (r, map even r)) (\<lambda>r. neg_slice r 1) 0 [[1, 2], [3, 4], [5]]
       2 True True True 1"

definition example_sp_dataset :: "int list ChatDataset" where
  "example_sp_dataset =
     ChatDataset_init (\<lambda>r. (r, map even r)) (\<lambda>r. neg_slice r 1) 0 [[1, 2], [3, 4], [5]]
       2 True True False 2"

subsection \<open>The packing path on a store of list objects\<close>

text \<open>
  The pure model above passes lists by value. In the code they are objects:
  \<open>buffer_tokens.extend(tokens)\<close> changes the buffer object in place, \<open>tokens.copy()\<close> and
  the list displays of lines 93 to 95 and 125 make new objects, and the lists of a sample
  stay reachable by whoever handed them over. What a second run over the same sample
  objects sees depends on which objects the first run changed, so the packing path is
  modelled once more on an explicit store: list objects at addresses, one map for each
  element type, and \<open>fresh\<close>, the first address not yet in use.
\<close>

type_synonym addr = nat

record store =
  int_lists :: "addr \<Rightarrow> int list"
  bool_lists :: "addr \<Rightarrow> bool list"
  nat_lists :: "addr \<Rightarrow> nat list"
  fresh :: addr

text \<open>A tokenized sample is a pair of objects: the token list and the flag list.\<close>

type_synonym sample_ref = "addr \<times> addr"

definition load :: "store \<Rightarrow> sample_ref \<Rightarrow> tokenized" where
  "load h s = (int_lists h (fst s), bool_lists h (snd s))"

text \<open>The three buffer variables of the generator hold references to list objects.\<close>

record buffer_refs =
  buffer_tokens_at :: addr
  buffer_is_completition_at :: addr
  buffer_lengths_at :: addr

text \<open>Lines 93 to 95: three new, empty list objects.\<close>

definition new_buffers :: "store \<Rightarrow> store \<times> buffer_refs" where
  "new_buffers h =
     (let a = fresh h
      in (h\<lparr> int_lists := (int_lists h)(a := []),
             bool_lists := (bool_lists h)(a + 1 := []),
             nat_lists := (nat_lists h)(a + 2 := []),
             fresh := a + 3 \<rparr>,
          \<lparr> buffer_tokens_at = a, buffer_is_completition_at = a + 1,
            buffer_lengths_at = a + 2 \<rparr>))"

text \<open>
  Lines 109 to 140 on the store, statement by statement. \<open>extend\<close> and \<open>append\<close> update
  the buffer objects in place, and every \<open>len(tokens)\<close> reads the store as it is at that
  line. The slices of lines 115 to 117 are new lists that only this pass reads, so they
  are kept as values. Lines 123 to 125 allocate three new objects and point the buffer
  variables at them. The store is returned in every case, also with the error of line
  120: the objects outlive the generator.
\<close>

definition store_pack_sample ::
  "'r ChatDataset \<Rightarrow> store \<Rightarrow> buffer_refs \<Rightarrow> sample_ref
     \<Rightarrow> store \<times> (error + (buffer_refs \<times> item option))" where
  "store_pack_sample self h b s =
     (case s of (tokens, is_completition) \<Rightarrow>
        let max_buffer_token_len = 1 + sequence_length self;
            buffer_tokens = buffer_tokens_at b;
            buffer_is_completition = buffer_is_completition_at b;
            buffer_lengths = buffer_lengths_at b;
            h = h\<lparr> int_lists := (int_lists h)
                   (buffer_tokens := int_lists h buffer_tokens @ int_lists h tokens) \<rparr>;
            h = h\<lparr> bool_lists := (bool_lists h)
                   (buffer_is_completition :=
                      bool_lists h buffer_is_completition @ bool_lists h is_completition) \<rparr>;
            h = h\<lparr> nat_lists := (nat_lists h)
                   (buffer_lengths :=
                      nat_lists h buffer_lengths @ [length (int_lists h tokens)]) \<rparr>
        in if int (length (int_lists h buffer_tokens)) > max_buffer_token_len then
             let sample_tokens =
                   neg_slice (int_lists h buffer_tokens) (length (int_lists h tokens));
                 sample_completitions =
                   neg_slice (bool_lists h buffer_is_completition) (length (int_lists h tokens));
                 sample_lengths = neg_slice (nat_lists h buffer_lengths) 1
             in if \<not> (length sample_tokens = length sample_completitions
                       \<and> length sample_completitions = sum_list sample_lengths)
                then (h, Inl AssertionError)
                else
                  let a = fresh h;
                      h = h\<lparr> int_lists := (int_lists h)(a := int_lists h tokens),
                             bool_lists := (bool_lists h)(a + 1 := bool_lists h is_completition),
                             nat_lists := (nat_lists h)(a + 2 := [length (int_lists h tokens)]),
                             fresh := a + 3 \<rparr>
                  in (h, Inr (\<lparr> buffer_tokens_at = a, buffer_is_completition_at = a + 1,
                                buffer_lengths_at = a + 2 \<rparr>,
                              Some (PackedWindow sample_tokens
                                (map (\<lambda>x. if x then 1 else 0)
                                   (create_labels self sample_tokens sample_completitions))
                                (create_position_ids self sample_lengths
                                   (sequence_length self)))))
           else (h, Inr (b, None)))"

fun store_pack_all ::
  "'r ChatDataset \<Rightarrow> store \<Rightarrow> buffer_refs \<Rightarrow> sample_ref list
     \<Rightarrow> item list \<times> store \<times> (error + buffer_refs)" where
  "store_pack_all self h b [] = ([], h, Inr b)"
| "store_pack_all self h b (s # ss) =
     (case store_pack_sample self h b s of
        (h', Inl e) \<Rightarrow> ([], h', Inl e)
      | (h', Inr (b', out)) \<Rightarrow>
          (case store_pack_all self h' b' ss of
             (outs, r) \<Rightarrow> ((case out of None \<Rightarrow> [] | Some w \<Rightarrow> [w]) @ outs, r)))"

text \<open>One run of the packing path from the start of \<open>__iter__\<close>, over the store \<open>h\<close>.\<close>

definition store_run ::
  "'r ChatDataset \<Rightarrow> store \<Rightarrow> sample_ref list \<Rightarrow> item list \<times> store \<times> (error + buffer_refs)" where
  "store_run self h srefs = (case new_buffers h of (h0, b0) \<Rightarrow> store_pack_all self h0 b0 srefs)"

text \<open>
  What the store holds at the buffer references, as the buffers of the pure model; the
  outcome of a run on the store with the buffers read out; \<open>owned\<close>: the buffer objects
  were allocated at or after \<open>f0\<close>; \<open>same_below\<close>: the token and flag objects below \<open>f0\<close>
  are the same in both stores.
\<close>

definition buffers_in :: "store \<Rightarrow> buffer_refs \<Rightarrow> buffers" where
  "buffers_in h b =
     \<lparr> buffer_tokens = int_lists h (buffer_tokens_at b),
       buffer_is_completition = bool_lists h (buffer_is_completition_at b),
       buffer_lengths = nat_lists h (buffer_lengths_at b) \<rparr>"

definition left_over :: "store \<Rightarrow> error + buffer_refs \<Rightarrow> error + buffers" where
  "left_over h r = (case r of Inl e \<Rightarrow> Inl e | Inr b \<Rightarrow> Inr (buffers_in h b))"

definition owned :: "addr \<Rightarrow> store \<Rightarrow> buffer_refs \<Rightarrow> bool" where
  "owned f0 h b \<longleftrightarrow>
     f0 \<le> fresh h \<and> f0 \<le> buffer_tokens_at b \<and> f0 \<le> buffer_is_completition_at b
     \<and> f0 \<le> buffer_lengths_at b"

definition same_below :: "addr \<Rightarrow> store \<Rightarrow> store \<Rightarrow> bool" where
  "same_below f0 h h' \<longleftrightarrow>
     (\<forall>a < f0. int_lists h' a = int_lists h a \<and> bool_lists h' a = bool_lists h a)"

text \<open>The three samples of the example dataset as objects at the addresses 0, 1 and 2.\<close>

definition example_store :: store where
  "example_store =
     \<lparr> int_lists = (\<lambda>a. [])(0 := [1, 2], 1 := [3, 4], 2 := [5]),
       bool_lists = (\<lambda>a. [])(0 := [False, True], 1 := [False, True], 2 := [False]),
       nat_lists = (\<lambda>a. []),
       fresh = 3 \<rparr>"

section \<open>Properties of the packing path\<close>

subsection \<open>Slices, and one pass of the packing step\<close>

lemma neg_slice_append_last:
  "ys \<noteq> [] \<Longrightarrow> neg_slice (xs @ ys) (length ys) = xs"
  by (simp add: neg_slice_def)

lemma neg_slice_append_same_length:
  "length ys = length zs \<Longrightarrow> zs \<noteq> [] \<Longrightarrow> neg_slice (xs @ ys) (length zs) = xs"
  by (simp add: neg_slice_def)

lemma pop_last_sample_extend:
  "pop_last_sample (extend_buffers b (tokens, is_c)) (length tokens) =
     (neg_slice (buffer_tokens b @ tokens) (length tokens),
      neg_slice (buffer_is_completition b @ is_c) (length tokens),
      buffer_lengths b)"
  by (simp add: pop_last_sample_def extend_buffers_def neg_slice_def)

lemma pack_sample_unfold:
  "pack_sample self b (tokens, is_c) =
     (if int (length (buffer_tokens b) + length tokens) > 1 + sequence_length self then
        (if length (neg_slice (buffer_tokens b @ tokens) (length tokens))
              = length (neg_slice (buffer_is_completition b @ is_c) (length tokens))
            \<and> length (neg_slice (buffer_is_completition b @ is_c) (length tokens))
              = sum_list (buffer_lengths b)
         then Inr (\<lparr> buffer_tokens = tokens, buffer_is_completition = is_c,
                     buffer_lengths = [length tokens] \<rparr>,
                   Some (PackedWindow (neg_slice (buffer_tokens b @ tokens) (length tokens))
                     (map (\<lambda>x. if x then 1 else 0)
                        (create_labels self (neg_slice (buffer_tokens b @ tokens) (length tokens))
                           (neg_slice (buffer_is_completition b @ is_c) (length tokens))))
                     (create_position_ids self (buffer_lengths b) (sequence_length self))))
         else Inl AssertionError)
      else Inr (extend_buffers b (tokens, is_c), None))"
  unfolding pack_sample_def
  by (simp add: pop_last_sample_extend Let_def) (simp add: extend_buffers_def)

lemma pack_sample_emits:
  assumes "pack_sample self b (tokens, is_c) = Inr (b', Some w)"
  shows "1 + sequence_length self < int (length (buffer_tokens b) + length tokens)"
    and "b' = \<lparr> buffer_tokens = tokens, buffer_is_completition = is_c,
                 buffer_lengths = [length tokens] \<rparr>"
    and "input_ids w = neg_slice (buffer_tokens b @ tokens) (length tokens)"
    and "length (input_ids w) = sum_list (buffer_lengths b)"
    and "label_mask w = map (\<lambda>x. if x then 1 else 0)
           (create_labels self (input_ids w)
              (neg_slice (buffer_is_completition b @ is_c) (length tokens)))"
    and "position_ids w = create_position_ids self (buffer_lengths b) (sequence_length self)"
  using assms by (auto simp: pack_sample_unfold split: if_splits)

lemma pack_sample_waits:
  assumes "pack_sample self b s = Inr (b', None)"
  shows "b' = extend_buffers b s"
    and "int (length (buffer_tokens b')) \<le> 1 + sequence_length self"
  using assms by (cases s; auto simp: pack_sample_unfold extend_buffers_def split: if_splits)+

lemma input_ids_cases:
  assumes "pack_sample self b (tokens, is_c) = Inr (b', Some w)"
  shows "input_ids w = (if tokens = [] then [] else buffer_tokens b)"
  using pack_sample_emits(3)[OF assms] by (simp add: neg_slice_def)

lemma length_build_labels [simp]: "length (build_labels t c) = length t"
  by (simp add: build_labels_def)

lemma length_build_labels_completions_only [simp]:
  "length (build_labels_completions_only t c) = length t"
  by (simp add: build_labels_completions_only_def)

lemma length_build_position_ids [simp]:
  "length (build_position_ids ls n) = sum_list ls"
  by (induction ls) (simp_all add: build_position_ids_def)

lemma length_build_position_ids_dummy [simp]:
  "length (build_position_ids_dummy ls n) = sum_list ls"
  by (simp add: build_position_ids_dummy_def)

lemma window_fields_same_length:
  assumes "\<And>t c. length (create_labels self t c) = length t"
      and "\<And>ls n. length (create_position_ids self ls n) = sum_list ls"
      and "pack_sample self b (tokens, is_c) = Inr (b', Some w)"
  shows "length (label_mask w) = length (input_ids w)"
    and "length (position_ids w) = length (input_ids w)"
proof -
  note e = pack_sample_emits[OF assms(3)]
  show "length (label_mask w) = length (input_ids w)"
    by (simp add: e(5) assms(1))
  show "length (position_ids w) = length (input_ids w)"
    by (simp add: e(6) e(4) assms(2))
qed

lemma helpers_init:
  "length (create_labels (ChatDataset_init tokenizer template pad records n completions_only
       no_cross_attention pack sp_ranks_size) t c) = length t"
  "length (create_position_ids (ChatDataset_init tokenizer template pad records n
       completions_only no_cross_attention pack sp_ranks_size) ls k) = sum_list ls"
  by (simp_all add: ChatDataset_init_def)

lemma pack_all_window_invariant:
  assumes "pack_all self b samples = (ws, r)"
      and "w \<in> set ws"
      and "0 \<le> 1 + sequence_length self"
      and "int (length (buffer_tokens b)) \<le> 1 + sequence_length self \<or> buffer_tokens b \<in> T"
  shows "int (length (input_ids w)) \<le> 1 + sequence_length self
           \<or> input_ids w \<in> T \<union> fst ` set samples"
  using assms
proof (induction samples arbitrary: b ws r T)
  case Nil
  then show ?case by simp
next
  case (Cons s ss)
  obtain tokens is_c where s: "s = (tokens, is_c)" by (cases s)
  show ?case
  proof (cases "pack_sample self b s")
    case (Inl e)
    with Cons.prems show ?thesis by simp
  next
    case (Inr p)
    obtain b' out where p: "p = (b', out)" by (cases p)
    obtain outs r' where rest: "pack_all self b' ss = (outs, r')" by (cases "pack_all self b' ss")
    show ?thesis
    proof (cases out)
      case None
      from Inr p None have step: "pack_sample self b s = Inr (b', None)" by simp
      from Cons.prems(1) step rest have "ws = outs" by simp
      with Cons.prems(2) have "w \<in> set outs" by simp
      from Cons.IH[OF rest this Cons.prems(3), of T] pack_sample_waits(2)[OF step]
      show ?thesis by auto
    next
      case (Some w0)
      from Inr p Some s have step: "pack_sample self b (tokens, is_c) = Inr (b', Some w0)" by simp
      from Cons.prems(1) step rest s have ws: "ws = w0 # outs" by simp
      show ?thesis
      proof (cases "w = w0")
        case True
        from input_ids_cases[OF step] Cons.prems(3,4) True show ?thesis
          by (auto split: if_splits)
      next
        case False
        with ws Cons.prems(2) have "w \<in> set outs" by simp
        moreover have "buffer_tokens b' = tokens" using pack_sample_emits(2)[OF step] by simp
        hence "int (length (buffer_tokens b')) \<le> 1 + sequence_length self
                 \<or> buffer_tokens b' \<in> insert tokens T" by simp
        ultimately have "int (length (input_ids w)) \<le> 1 + sequence_length self
           \<or> input_ids w \<in> insert tokens T \<union> fst ` set ss"
          using Cons.IH[OF rest _ Cons.prems(3)] by blast
        then show ?thesis using s by auto
      qed
    qed
  qed
qed

lemma pack_all_window_step:
  assumes "pack_all self b samples = (ws, r)" and "w \<in> set ws"
  shows "\<exists>b0 b1 tokens is_c. pack_sample self b0 (tokens, is_c) = Inr (b1, Some w)"
  using assms
proof (induction samples arbitrary: b ws r)
  case Nil
  then show ?case by simp
next
  case (Cons s ss)
  then show ?case
    by (cases s) (fastforce split: sum.splits prod.splits option.splits)
qed

subsection \<open>The two datasets, evaluated\<close>

lemma example_dataset_fields:
  "sequence_length example_dataset = 2"
  "create_labels example_dataset = build_labels_completions_only"
  "create_position_ids example_dataset = build_position_ids"
  "pack_samples example_dataset"
  "dataset example_dataset = [[1, 2], [3, 4], [5]]"
  "chat_tokenizer example_dataset r = (r, map even r)"
  "apply_chat_template example_dataset r = neg_slice r 1"
  by (simp_all add: example_dataset_def ChatDataset_init_def)

lemmas pack_eval =
  pack_sample_unfold example_dataset_fields neg_slice_def extend_buffers_def empty_buffers_def
  build_labels_completions_only_def build_position_ids_def

subsection \<open>Lengths of a packed window\<close>

text \<open>
  C1, as the code has it. Let the label helper return one entry for each token and the
  position helper one position for each token of the samples it is given, as the spec
  describes both variants of each. Then the \<open>input_ids\<close>, \<open>label_mask\<close> and
  \<open>position_ids\<close> of every window that the packing path yields have the same length. For
  \<open>sequence_length \<ge> 0\<close> that length is at most \<open>sequence_length + 1\<close>, unless the
  window is exactly one of the samples fed and that sample is itself longer than
  \<open>sequence_length + 1\<close>: nothing truncates such a sample.
\<close>

theorem packed_window_lengths:
  assumes labels: "\<And>t c. length (create_labels self t c) = length t"
      and positions: "\<And>ls n. length (create_position_ids self ls n) = sum_list ls"
      and nonneg: "0 \<le> sequence_length self"
      and run: "pack_all self empty_buffers samples = (ws, r)"
      and w: "w \<in> set ws"
  shows "length (label_mask w) = length (input_ids w)
         \<and> length (position_ids w) = length (input_ids w)
         \<and> (int (length (input_ids w)) \<le> sequence_length self + 1
              \<or> (\<exists>s \<in> set samples. input_ids w = fst s
                     \<and> sequence_length self + 1 < int (length (fst s))))"
proof -
  from pack_all_window_step[OF run w] obtain b0 b1 tokens is_c
    where step: "pack_sample self b0 (tokens, is_c) = Inr (b1, Some w)" by blast
  note same = window_fields_same_length[OF labels positions step]
  have "int (length (buffer_tokens empty_buffers)) \<le> 1 + sequence_length self
          \<or> buffer_tokens empty_buffers \<in> {}"
    using nonneg by (simp add: empty_buffers_def)
  from pack_all_window_invariant[OF run w _ this] nonneg
  have "int (length (input_ids w)) \<le> 1 + sequence_length self
          \<or> input_ids w \<in> fst ` set samples" by simp
  then have "int (length (input_ids w)) \<le> sequence_length self + 1
              \<or> (\<exists>s \<in> set samples. input_ids w = fst s
                     \<and> sequence_length self + 1 < int (length (fst s)))"
    by (cases "int (length (input_ids w)) \<le> sequence_length self + 1") auto
  with same show ?thesis by simp
qed

text \<open>
  The theorem at the example dataset, whose helpers are those that \<open>__init__\<close> selects,
  and a run of two samples of two tokens each: the second arrival yields the first sample
  as a window of two tokens.
\<close>

theorem packed_window_lengths_witness:
  "pack_all example_dataset empty_buffers [([1, 2], [False, True]), ([3, 4], [False, True])]
     = ([PackedWindow [1, 2] [0, 1] [0, 1]],
        Inr \<lparr> buffer_tokens = [3, 4], buffer_is_completition = [False, True],
              buffer_lengths = [2] \<rparr>)
   \<and> length (label_mask (PackedWindow [1, 2] [0, 1] [0, 1])) = 2
   \<and> length (position_ids (PackedWindow [1, 2] [0, 1] [0, 1])) = 2
   \<and> int (length (input_ids (PackedWindow [1, 2] [0, 1] [0, 1])))
        \<le> sequence_length example_dataset + 1"
proof -
  have run: "pack_all example_dataset empty_buffers
               [([1, 2], [False, True]), ([3, 4], [False, True])]
     = ([PackedWindow [1, 2] [0, 1] [0, 1]],
        Inr \<lparr> buffer_tokens = [3, 4], buffer_is_completition = [False, True],
              buffer_lengths = [2] \<rparr>)"
    by (simp add: pack_eval)
  have labels: "length (create_labels example_dataset t c) = length t" for t c
    unfolding example_dataset_def by (rule helpers_init)
  have positions: "length (create_position_ids example_dataset ls n) = sum_list ls" for ls n
    unfolding example_dataset_def by (rule helpers_init)
  have nonneg: "0 \<le> sequence_length example_dataset"
    by (simp add: example_dataset_fields)
  have "PackedWindow [1, 2] [0, 1] [0, 1] \<in> set [PackedWindow [1, 2] [0, 1] [0, 1]]"
    by simp
  from packed_window_lengths[OF labels positions nonneg run this] run
  show ?thesis by (simp add: example_dataset_fields)
qed

text \<open>
  C1 as stated fails: with \<open>sequence_length = 2\<close> a sample of five tokens followed by a
  sample of one token gives an empty window and then a window of five tokens, more than
  \<open>sequence_length + 1 = 3\<close>.
\<close>

theorem window_longer_than_cap:
  "pack_all example_dataset empty_buffers
       [([1, 2, 3, 4, 5], [False, True, False, True, False]), ([6], [True])]
     = ([PackedWindow [] [] [],
         PackedWindow [1, 2, 3, 4, 5] [0, 1, 0, 1, 0] [0, 1, 2, 3, 4]],
        Inr \<lparr> buffer_tokens = [6], buffer_is_completition = [True], buffer_lengths = [1] \<rparr>)
   \<and> \<not> int (length (input_ids (PackedWindow [1, 2, 3, 4, 5] [0, 1, 0, 1, 0] [0, 1, 2, 3, 4])))
          \<le> sequence_length example_dataset + 1"
  by (simp add: pack_eval)

subsection \<open>Tokens are neither dropped nor duplicated\<close>

text \<open>
  C2. When the packing step yields a window, the sample lengths recorded for it (the
  \<open>sample_lengths\<close> of line 117) add up to the length of its \<open>input_ids\<close>, which are the
  \<open>sample_tokens\<close> of line 115. Where the buffer lengths described the buffered tokens
  before the step, the window followed by the new buffer is the old buffer followed by the
  new sample: no token is lost or repeated at the emission.
\<close>

theorem emitted_sample_lengths_sum:
  assumes "pack_sample self b (tokens, is_c) = Inr (b', Some w)"
      and "pop_last_sample (extend_buffers b (tokens, is_c)) (length tokens)
             = (sample_tokens, sample_completitions, sample_lengths)"
  shows "input_ids w = sample_tokens
         \<and> sum_list sample_lengths = length (input_ids w)
         \<and> (sum_list (buffer_lengths b) = length (buffer_tokens b)
              \<longrightarrow> input_ids w @ buffer_tokens b' = buffer_tokens b @ tokens)"
proof -
  note e = pack_sample_emits[OF assms(1)]
  from assms(2) have st: "sample_tokens = neg_slice (buffer_tokens b @ tokens) (length tokens)"
    and sl: "sample_lengths = buffer_lengths b"
    by (simp_all add: pop_last_sample_extend)
  have "input_ids w = sample_tokens" using e(3) st by simp
  moreover have "sum_list sample_lengths = length (input_ids w)" using e(4) sl by simp
  moreover have "input_ids w @ buffer_tokens b' = buffer_tokens b @ tokens"
    if "sum_list (buffer_lengths b) = length (buffer_tokens b)"
    using that e(4) input_ids_cases[OF assms(1)] e(2) by (cases "tokens = []") auto
  ultimately show ?thesis by blast
qed

text \<open>The theorem at a buffer holding one sample of two tokens, when a second one arrives.\<close>

theorem emitted_sample_lengths_sum_witness:
  "pack_sample example_dataset
       \<lparr> buffer_tokens = [1, 2], buffer_is_completition = [False, True],
         buffer_lengths = [2] \<rparr> ([3, 4], [False, True])
     = Inr (\<lparr> buffer_tokens = [3, 4], buffer_is_completition = [False, True],
                buffer_lengths = [2] \<rparr>, Some (PackedWindow [1, 2] [0, 1] [0, 1]))
   \<and> pop_last_sample
         (extend_buffers \<lparr> buffer_tokens = [1, 2], buffer_is_completition = [False, True],
                           buffer_lengths = [2] \<rparr> ([3, 4], [False, True])) (length [3, 4 :: int])
       = ([1, 2], [False, True], [2])
   \<and> sum_list [2 :: nat] = length (input_ids (PackedWindow [1, 2] [0, 1] [0, 1]))
   \<and> input_ids (PackedWindow [1, 2] [0, 1] [0, 1]) @ [3, 4] = [1, 2] @ [3, 4]"
proof -
  have step: "pack_sample example_dataset
       \<lparr> buffer_tokens = [1, 2], buffer_is_completition = [False, True],
         buffer_lengths = [2] \<rparr> ([3, 4], [False, True])
     = Inr (\<lparr> buffer_tokens = [3, 4], buffer_is_completition = [False, True],
                buffer_lengths = [2] \<rparr>, Some (PackedWindow [1, 2] [0, 1] [0, 1]))"
    by (simp add: pack_eval eval_nat_numeral)
  have popped: "pop_last_sample
         (extend_buffers \<lparr> buffer_tokens = [1, 2], buffer_is_completition = [False, True],
                           buffer_lengths = [2] \<rparr> ([3, 4], [False, True])) (length [3, 4 :: int])
       = ([1, 2], [False, True], [2])"
    by (simp add: pop_last_sample_def pack_eval)
  from emitted_sample_lengths_sum[OF step popped] step popped
  show ?thesis by simp
qed

text \<open>
  Over a whole run that ends without an error, the windows yielded and the tokens left in
  the buffer are together the tokens that were fed, in order.
\<close>

lemma pack_all_conserves_tokens:
  assumes "pack_all self b samples = (ws, Inr b')"
      and "sum_list (buffer_lengths b) = length (buffer_tokens b)"
  shows "concat (map input_ids ws) @ buffer_tokens b' = buffer_tokens b @ concat (map fst samples)"
  using assms
proof (induction samples arbitrary: b ws)
  case Nil
  then show ?case by simp
next
  case (Cons s ss)
  obtain tokens is_c where s: "s = (tokens, is_c)" by (cases s)
  from Cons.prems(1) obtain b1 out outs where
    step: "pack_sample self b (tokens, is_c) = Inr (b1, out)"
    and rest: "pack_all self b1 ss = (outs, Inr b')"
    and ws: "ws = (case out of None \<Rightarrow> [] | Some w \<Rightarrow> [w]) @ outs"
    unfolding s by (auto split: sum.splits prod.splits)
  show ?case
  proof (cases out)
    case None
    from pack_sample_waits(1)[OF step[unfolded None]]
    have b1: "b1 = extend_buffers b (tokens, is_c)" .
    then have "sum_list (buffer_lengths b1) = length (buffer_tokens b1)"
      using Cons.prems(2) by (simp add: extend_buffers_def)
    from Cons.IH[OF rest this] show ?thesis
      using ws None b1 s by (simp add: extend_buffers_def)
  next
    case (Some w)
    note e = pack_sample_emits[OF step[unfolded Some]]
    have "sum_list (buffer_lengths b1) = length (buffer_tokens b1)" using e(2) by simp
    from Cons.IH[OF rest this]
    have "concat (map input_ids outs) @ buffer_tokens b' = tokens @ concat (map fst ss)"
      using e(2) by simp
    moreover have "input_ids w @ tokens = buffer_tokens b @ tokens"
      using e(4) input_ids_cases[OF step[unfolded Some]] Cons.prems(2)
      by (cases "tokens = []") auto
    ultimately show ?thesis using ws Some s by simp
  qed
qed

subsection \<open>The buffer after an emission\<close>

text \<open>
  C6. Whenever the packing step yields a window, the buffers afterwards hold exactly the
  sample just appended: its tokens, its completion flags, and its length as the only
  entry of \<open>buffer_lengths\<close>.
\<close>

theorem buffer_after_emission:
  assumes "pack_sample self b (tokens, is_completition) = Inr (b', Some w)"
  shows "buffer_tokens b' = tokens
         \<and> buffer_is_completition b' = is_completition
         \<and> buffer_lengths b' = [length tokens]"
  using pack_sample_emits(2)[OF assms] by simp

text \<open>The theorem at a sample of one token that overflows a buffer of three.\<close>

theorem buffer_after_emission_witness:
  "pack_sample example_dataset
       \<lparr> buffer_tokens = [3, 4, 5], buffer_is_completition = [False, True, False],
         buffer_lengths = [2, 1] \<rparr> ([6], [True])
     = Inr (\<lparr> buffer_tokens = [6], buffer_is_completition = [True], buffer_lengths = [1] \<rparr>,
            Some (PackedWindow [3, 4, 5] [0, 1, 0] [0, 1, 0]))
   \<and> buffer_tokens \<lparr> buffer_tokens = [6], buffer_is_completition = [True],
                         buffer_lengths = [1] \<rparr> = [6]
   \<and> buffer_lengths \<lparr> buffer_tokens = [6 :: int], buffer_is_completition = [True],
                          buffer_lengths = [1] \<rparr> = [length [6 :: int]]"
proof -
  have step: "pack_sample example_dataset
       \<lparr> buffer_tokens = [3, 4, 5], buffer_is_completition = [False, True, False],
         buffer_lengths = [2, 1] \<rparr> ([6], [True])
     = Inr (\<lparr> buffer_tokens = [6], buffer_is_completition = [True], buffer_lengths = [1] \<rparr>,
            Some (PackedWindow [3, 4, 5] [0, 1, 0] [0, 1, 0]))"
    by (simp add: pack_eval eval_nat_numeral)
  from buffer_after_emission[OF step] step show ?thesis by simp
qed

subsection \<open>Samples longer than a window\<close>

text \<open>
  C10. When the first sample appended to the empty buffers is longer than
  \<open>sequence_length + 1\<close> (and has one completion flag for each token), the overflow check
  fires at once, the slice that removes the sample leaves nothing, and the window yielded
  has empty \<open>input_ids\<close>; the sample stays in the buffers.
\<close>

theorem over_length_first_sample_yields_empty_window:
  assumes "sequence_length self + 1 < int (length tokens)"
      and "length is_completition = length tokens"
  shows "\<exists>w. pack_sample self empty_buffers (tokens, is_completition)
                = Inr (\<lparr> buffer_tokens = tokens, buffer_is_completition = is_completition,
                          buffer_lengths = [length tokens] \<rparr>, Some w)
              \<and> input_ids w = []"
  using assms by (simp add: pack_sample_unfold empty_buffers_def neg_slice_def)

text \<open>The theorem at a first sample of four tokens, with \<open>sequence_length = 2\<close>.\<close>

theorem over_length_first_sample_yields_empty_window_witness:
  "sequence_length example_dataset + 1 < int (length [7, 7, 7, 7 :: int])
   \<and> (\<exists>w. pack_sample example_dataset empty_buffers
                ([7, 7, 7, 7], [False, False, True, True])
              = Inr (\<lparr> buffer_tokens = [7, 7, 7, 7],
                       buffer_is_completition = [False, False, True, True],
                       buffer_lengths = [4] \<rparr>, Some w)
            \<and> input_ids w = [])"
proof -
  have long: "sequence_length example_dataset + 1 < int (length [7, 7, 7, 7 :: int])"
    by (simp add: example_dataset_fields)
  have flags: "length [False, False, True, True] = length [7, 7, 7, 7 :: int]"
    by simp
  from over_length_first_sample_yields_empty_window[OF long flags] long
  show ?thesis by (simp add: eval_nat_numeral)
qed

text \<open>
  C3, as the code has it. Let \<open>sequence_length \<ge> 0\<close>, let the buffers be consistent, and
  let a sample arrive that is longer than \<open>sequence_length + 1\<close> and has one flag for each
  token. It is not deferred for ever. The step that appends it yields a window that holds
  exactly what the buffers held before it (their tokens, the labels of their flags, the
  positions of their sample lengths) and leaves the long sample as the only content of the
  buffers. The next sample that arrives, if it is not empty and has one flag for each
  token, makes the step yield the long sample alone: a window that holds exactly its
  tokens, cut with the sample lengths \<open>[len(tokens)]\<close>.
\<close>

theorem over_length_sample_emitted_alone:
  assumes nonneg: "0 \<le> sequence_length self"
      and consistent: "buffers_consistent b"
      and long: "sequence_length self + 1 < int (length tokens)"
      and eq: "length is_c = length tokens"
      and nonempty: "tokens2 \<noteq> []"
      and eq2: "length is_c2 = length tokens2"
  shows "pack_sample self b (tokens, is_c)
           = Inr (\<lparr> buffer_tokens = tokens, buffer_is_completition = is_c,
                    buffer_lengths = [length tokens] \<rparr>,
                  Some (PackedWindow (buffer_tokens b)
                    (map (\<lambda>x. if x then 1 else 0)
                       (create_labels self (buffer_tokens b) (buffer_is_completition b)))
                    (create_position_ids self (buffer_lengths b) (sequence_length self))))
         \<and> pack_sample self
               \<lparr> buffer_tokens = tokens, buffer_is_completition = is_c,
                 buffer_lengths = [length tokens] \<rparr> (tokens2, is_c2)
             = Inr (\<lparr> buffer_tokens = tokens2, buffer_is_completition = is_c2,
                      buffer_lengths = [length tokens2] \<rparr>,
                    Some (PackedWindow tokens
                      (map (\<lambda>x. if x then 1 else 0) (create_labels self tokens is_c))
                      (create_position_ids self [length tokens] (sequence_length self))))
         \<and> pop_last_sample
               (extend_buffers \<lparr> buffer_tokens = tokens, buffer_is_completition = is_c,
                                 buffer_lengths = [length tokens] \<rparr> (tokens2, is_c2))
               (length tokens2)
             = (tokens, is_c, [length tokens])"
proof -
  from nonneg long have ne: "tokens \<noteq> []" by auto
  have p1: "neg_slice (buffer_tokens b @ tokens) (length tokens) = buffer_tokens b"
    using ne by (simp add: neg_slice_def)
  have p2: "neg_slice (buffer_is_completition b @ is_c) (length tokens)
              = buffer_is_completition b"
    using ne eq by (simp add: neg_slice_def)
  have over: "1 + sequence_length self < int (length (buffer_tokens b) + length tokens)"
    using long by simp
  have one: "pack_sample self b (tokens, is_c)
           = Inr (\<lparr> buffer_tokens = tokens, buffer_is_completition = is_c,
                    buffer_lengths = [length tokens] \<rparr>,
                  Some (PackedWindow (buffer_tokens b)
                    (map (\<lambda>x. if x then 1 else 0)
                       (create_labels self (buffer_tokens b) (buffer_is_completition b)))
                    (create_position_ids self (buffer_lengths b) (sequence_length self))))"
    using over consistent by (simp add: pack_sample_unfold p1 p2 buffers_consistent_def)
  have s1: "neg_slice (tokens @ tokens2) (length tokens2) = tokens"
    using nonempty by (simp add: neg_slice_def)
  have s2: "neg_slice (is_c @ is_c2) (length tokens2) = is_c"
    using nonempty eq2 by (simp add: neg_slice_def)
  have "int (length tokens + length tokens2) > 1 + sequence_length self"
    using long by simp
  then have two: "pack_sample self
               \<lparr> buffer_tokens = tokens, buffer_is_completition = is_c,
                 buffer_lengths = [length tokens] \<rparr> (tokens2, is_c2)
             = Inr (\<lparr> buffer_tokens = tokens2, buffer_is_completition = is_c2,
                      buffer_lengths = [length tokens2] \<rparr>,
                    Some (PackedWindow tokens
                      (map (\<lambda>x. if x then 1 else 0) (create_labels self tokens is_c))
                      (create_position_ids self [length tokens] (sequence_length self))))"
    using s1 s2 eq by (simp add: pack_sample_unfold)
  have three: "pop_last_sample
               (extend_buffers \<lparr> buffer_tokens = tokens, buffer_is_completition = is_c,
                                 buffer_lengths = [length tokens] \<rparr> (tokens2, is_c2))
               (length tokens2)
             = (tokens, is_c, [length tokens])"
    using s1 s2 by (simp add: pop_last_sample_extend)
  from one two three show ?thesis by simp
qed

text \<open>
  The theorem with \<open>sequence_length = 2\<close>, at buffers that hold one sample of two tokens,
  a sample of four tokens and a following sample of two tokens.
\<close>

theorem over_length_sample_emitted_alone_witness:
  "pack_sample example_dataset
       \<lparr> buffer_tokens = [1, 2], buffer_is_completition = [False, True],
         buffer_lengths = [2] \<rparr> ([7, 7, 7, 7], [False, False, True, True])
     = Inr (\<lparr> buffer_tokens = [7, 7, 7, 7],
               buffer_is_completition = [False, False, True, True],
               buffer_lengths = [4] \<rparr>, Some (PackedWindow [1, 2] [0, 1] [0, 1]))
   \<and> pack_sample example_dataset
         \<lparr> buffer_tokens = [7, 7, 7, 7],
           buffer_is_completition = [False, False, True, True],
           buffer_lengths = [4] \<rparr> ([8, 9], [True, False])
       = Inr (\<lparr> buffer_tokens = [8, 9], buffer_is_completition = [True, False],
                 buffer_lengths = [2] \<rparr>,
              Some (PackedWindow [7, 7, 7, 7] [0, 0, 1, 1] [0, 1, 2, 3]))"
proof -
  have nonneg: "0 \<le> sequence_length example_dataset"
    by (simp add: example_dataset_fields)
  have consistent: "buffers_consistent
      \<lparr> buffer_tokens = [1, 2], buffer_is_completition = [False, True],
        buffer_lengths = [2] \<rparr>"
    by (simp add: buffers_consistent_def)
  have long: "sequence_length example_dataset + 1 < int (length [7, 7, 7, 7 :: int])"
    by (simp add: example_dataset_fields)
  have flags: "length [False, False, True, True] = length [7, 7, 7, 7 :: int]"
    by simp
  have nonempty: "[8, 9 :: int] \<noteq> []"
    by simp
  have flags2: "length [True, False] = length [8, 9 :: int]"
    by simp
  from over_length_sample_emitted_alone[OF nonneg consistent long flags nonempty flags2]
  show ?thesis
    by (simp add: example_dataset_fields build_labels_completions_only_def
        build_position_ids_def eval_nat_numeral)
qed

text \<open>
  An empty sample after a sample that is longer than \<open>sequence_length + 1\<close> is the one
  arrival that does not push the long sample out: \<open>buffer_tokens[:-0]\<close> is the empty list,
  \<open>sample_lengths\<close> still holds the long sample's length, and the assertion of line 120
  ends the run.
\<close>

lemma empty_sample_after_over_length_sample:
  "pack_all example_dataset empty_buffers
       [([7, 7, 7, 7], [False, False, True, True]), ([], [])]
     = ([PackedWindow [] [] []], Inl AssertionError)"
  by (simp add: pack_eval)

text \<open>
  C3 as stated fails: with \<open>sequence_length = 2\<close> the sample of four tokens is yielded
  alone, as the second window, as soon as the sample of two tokens arrives.
\<close>

theorem over_length_sample_not_deferred:
  "sequence_length example_dataset + 1 < int (length [7, 7, 7, 7 :: int])
   \<and> pack_all example_dataset empty_buffers
         [([7, 7, 7, 7], [False, False, True, True]), ([8, 9], [True, False])]
       = ([PackedWindow [] [] [], PackedWindow [7, 7, 7, 7] [0, 0, 1, 1] [0, 1, 2, 3]],
          Inr \<lparr> buffer_tokens = [8, 9], buffer_is_completition = [True, False],
                buffer_lengths = [2] \<rparr>)"
  by (simp add: pack_eval)

subsection \<open>The buffer invariant is kept\<close>

lemma buffers_consistent_empty: "buffers_consistent empty_buffers"
  by (simp add: buffers_consistent_def empty_buffers_def)

lemma buffers_consistent_extend:
  "buffers_consistent b \<Longrightarrow> length (fst s) = length (snd s)
     \<Longrightarrow> buffers_consistent (extend_buffers b s)"
  by (simp add: buffers_consistent_def extend_buffers_def)

lemma buffers_consistent_pack_sample:
  assumes "buffers_consistent b" and "length (fst s) = length (snd s)"
      and "pack_sample self b s = Inr (b', out)"
  shows "buffers_consistent b'"
proof (cases out)
  case None
  with assms(3) have "b' = extend_buffers b s" by (simp add: pack_sample_waits(1))
  with assms(1,2) show ?thesis by (simp add: buffers_consistent_extend)
next
  case (Some w)
  obtain tokens is_c where s: "s = (tokens, is_c)" by (cases s)
  from pack_sample_emits(2)[OF assms(3)[unfolded Some s]] assms(2) s
  show ?thesis by (simp add: buffers_consistent_def)
qed

lemma buffers_consistent_pack_all:
  assumes "buffers_consistent b"
      and "\<forall>s \<in> set samples. length (fst s) = length (snd s)"
      and "pack_all self b samples = (ws, Inr b')"
  shows "buffers_consistent b'"
  using assms
proof (induction samples arbitrary: b ws)
  case Nil
  then show ?case by simp
next
  case (Cons s ss)
  from Cons.prems(3) obtain b1 out outs where
    step: "pack_sample self b s = Inr (b1, out)"
    and rest: "pack_all self b1 ss = (outs, Inr b')"
    by (auto split: sum.splits prod.splits)
  from buffers_consistent_pack_sample[OF Cons.prems(1) _ step] Cons.prems(2)
  have "buffers_consistent b1" by simp
  from Cons.IH[OF this _ rest] Cons.prems(2) show ?case by simp
qed

text \<open>
  C5. Let the tokenizer give as many completion flags as tokens for every sample. Then,
  whatever samples have been fed since the start, the buffers between two calls of the
  packing step are consistent (\<open>sum(buffer_lengths) = len(buffer_tokens) =
  len(buffer_is_completition)\<close>), after a step that only appended as well as after a step
  that yielded and reset; and they are consistent again right after the next sample is
  appended.
\<close>

theorem buffer_invariant:
  assumes "\<forall>s \<in> set samples. length (fst s) = length (snd s)"
      and "pack_all self empty_buffers samples = (ws, Inr b)"
  shows "buffers_consistent b
         \<and> (\<forall>tokens is_completition. length tokens = length is_completition
              \<longrightarrow> buffers_consistent (extend_buffers b (tokens, is_completition)))"
proof -
  have "buffers_consistent b"
    using buffers_consistent_pack_all[OF buffers_consistent_empty assms] .
  then show ?thesis by (simp add: buffers_consistent_extend)
qed

text \<open>The theorem after the three samples of the example dataset, and a fourth appended.\<close>

theorem buffer_invariant_witness:
  "pack_all example_dataset empty_buffers
       [([1, 2], [False, True]), ([3, 4], [False, True]), ([5], [False])]
     = ([PackedWindow [1, 2] [0, 1] [0, 1]],
        Inr \<lparr> buffer_tokens = [3, 4, 5], buffer_is_completition = [False, True, False],
              buffer_lengths = [2, 1] \<rparr>)
   \<and> buffers_consistent
         \<lparr> buffer_tokens = [3, 4, 5], buffer_is_completition = [False, True, False],
           buffer_lengths = [2, 1] \<rparr>
   \<and> buffers_consistent
         (extend_buffers
            \<lparr> buffer_tokens = [3, 4, 5], buffer_is_completition = [False, True, False],
              buffer_lengths = [2, 1] \<rparr> ([6], [True]))"
proof -
  have flags: "\<forall>s \<in> set [([1, 2 :: int], [False, True]), ([3, 4], [False, True]), ([5], [False])].
                 length (fst s) = length (snd s)"
    by simp
  have run: "pack_all example_dataset empty_buffers
       [([1, 2], [False, True]), ([3, 4], [False, True]), ([5], [False])]
     = ([PackedWindow [1, 2] [0, 1] [0, 1]],
        Inr \<lparr> buffer_tokens = [3, 4, 5], buffer_is_completition = [False, True, False],
              buffer_lengths = [2, 1] \<rparr>)"
    by (simp add: pack_eval eval_nat_numeral)
  from buffer_invariant[OF flags run] run show ?thesis by simp
qed

subsection \<open>Running the packing path twice\<close>

lemma pack_sample_depends_on:
  assumes "sequence_length self = sequence_length self'"
      and "create_labels self = create_labels self'"
      and "create_position_ids self = create_position_ids self'"
  shows "pack_sample self b s = pack_sample self' b s"
  using assms by (cases s) (simp add: pack_sample_unfold)

text \<open>
  The pure packing path reads nothing of the dataset object but \<open>sequence_length\<close> and
  the two helpers.
\<close>

lemma pack_all_depends_on:
  assumes "sequence_length self = sequence_length self'"
      and "create_labels self = create_labels self'"
      and "create_position_ids self = create_position_ids self'"
  shows "pack_all self b samples = pack_all self' b samples"
proof (induction samples arbitrary: b)
  case Nil
  show ?case by simp
next
  case (Cons s ss)
  have "pack_sample self b s = pack_sample self' b s"
    by (rule pack_sample_depends_on[OF assms])
  then show ?case
    by (simp add: Cons.IH split: sum.splits prod.splits)
qed

text \<open>
  A pass on the store does what the pure pass does on the lists that the store holds, and
  it changes no object that was allocated before the buffers were.
\<close>

lemma store_pack_sample_simulates:
  assumes "owned f0 h b" and "fst s < f0" and "snd s < f0"
  shows "case store_pack_sample self h b s of (h', r) \<Rightarrow>
           same_below f0 h h' \<and> f0 \<le> fresh h'
           \<and> (case pack_sample self (buffers_in h b) (load h s) of
                 Inl e \<Rightarrow> r = Inl e
               | Inr (pb, out) \<Rightarrow>
                   (\<exists>b'. r = Inr (b', out) \<and> owned f0 h' b' \<and> buffers_in h' b' = pb))"
proof -
  obtain t c where s: "s = (t, c)" by (cases s)
  from assms have ne: "buffer_tokens_at b \<noteq> t" "buffer_is_completition_at b \<noteq> c"
    by (auto simp: owned_def s)
  show ?thesis
    using assms ne unfolding s
    by (auto simp: store_pack_sample_def pack_sample_def Let_def owned_def same_below_def
        buffers_in_def load_def extend_buffers_def pop_last_sample_def)
qed

lemma same_below_refl: "same_below f0 h h"
  by (simp add: same_below_def)

lemma same_below_trans:
  "same_below f0 h h1 \<Longrightarrow> same_below f0 h1 h2 \<Longrightarrow> same_below f0 h h2"
  by (simp add: same_below_def)

lemma same_below_mono: "same_below f0 h h' \<Longrightarrow> f \<le> f0 \<Longrightarrow> same_below f h h'"
  by (simp add: same_below_def)

lemma same_below_load:
  "same_below f0 h h' \<Longrightarrow> fst s < f0 \<Longrightarrow> snd s < f0 \<Longrightarrow> load h' s = load h s"
  by (simp add: same_below_def load_def)

lemma same_below_loads:
  assumes "same_below f0 h h'" and "\<forall>s \<in> set srefs. fst s < f0 \<and> snd s < f0"
  shows "map (load h') srefs = map (load h) srefs"
  using assms by (auto simp: same_below_load)

lemma store_pack_all_simulates:
  assumes "owned f0 h b" and "\<forall>s \<in> set srefs. fst s < f0 \<and> snd s < f0"
      and "store_pack_all self h b srefs = (ws, h', r)"
  shows "same_below f0 h h' \<and> f0 \<le> fresh h'
         \<and> (ws, left_over h' r) = pack_all self (buffers_in h b) (map (load h) srefs)"
  using assms
proof (induction srefs arbitrary: h b ws h' r)
  case Nil
  then show ?case by (auto simp: same_below_refl left_over_def owned_def)
next
  case (Cons s ss)
  obtain h1 r1 where step: "store_pack_sample self h b s = (h1, r1)"
    by (cases "store_pack_sample self h b s")
  from Cons.prems(2) have s: "fst s < f0" "snd s < f0" by simp_all
  from store_pack_sample_simulates[OF Cons.prems(1) s, of self] step
  have frame: "same_below f0 h h1" and fr1: "f0 \<le> fresh h1"
    and sim: "case pack_sample self (buffers_in h b) (load h s) of
                 Inl e \<Rightarrow> r1 = Inl e
               | Inr (pb, out) \<Rightarrow>
                   (\<exists>b'. r1 = Inr (b', out) \<and> owned f0 h1 b' \<and> buffers_in h1 b' = pb)"
    by simp_all
  show ?case
  proof (cases "pack_sample self (buffers_in h b) (load h s)")
    case (Inl e)
    with sim have "r1 = Inl e" by simp
    with Cons.prems(3) step have "ws = []" "h' = h1" "r = Inl e" by simp_all
    then show ?thesis using frame fr1 Inl by (simp add: left_over_def)
  next
    case (Inr p)
    obtain pb out where p: "p = (pb, out)" by (cases p)
    from sim Inr p obtain b1 where r1: "r1 = Inr (b1, out)"
      and own1: "owned f0 h1 b1" and rel1: "buffers_in h1 b1 = pb" by auto
    obtain outs h2 r2 where rest: "store_pack_all self h1 b1 ss = (outs, h2, r2)"
      by (cases "store_pack_all self h1 b1 ss")
    from Cons.prems(2) have ss: "\<forall>s \<in> set ss. fst s < f0 \<and> snd s < f0" by simp
    from Cons.IH[OF own1 ss rest]
    have frame2: "same_below f0 h1 h2" and fr2: "f0 \<le> fresh h2"
      and sim2: "(outs, left_over h2 r2) = pack_all self pb (map (load h1) ss)"
      by (simp_all add: rel1)
    from same_below_loads[OF frame ss] have loads: "map (load h1) ss = map (load h) ss" .
    from Cons.prems(3) step r1 rest
    have res: "ws = (case out of None \<Rightarrow> [] | Some w \<Rightarrow> [w]) @ outs" "h' = h2" "r = r2"
      by simp_all
    have "(ws, left_over h' r) = pack_all self (buffers_in h b) (map (load h) (s # ss))"
      using Inr p res sim2[symmetric] loads by simp
    with same_below_trans[OF frame frame2] fr2 res show ?thesis by simp
  qed
qed

lemma new_buffers_owned:
  assumes "new_buffers h = (h0, b0)"
  shows "owned (fresh h) h0 b0" and "same_below (fresh h) h h0"
    and "buffers_in h0 b0 = empty_buffers"
  using assms
  by (auto simp: new_buffers_def Let_def owned_def same_below_def buffers_in_def
      empty_buffers_def)

lemma store_run_simulates:
  assumes "\<forall>s \<in> set srefs. fst s < fresh h \<and> snd s < fresh h"
      and "store_run self h srefs = (ws, h', r)"
  shows "same_below (fresh h) h h'" and "fresh h \<le> fresh h'"
    and "(ws, left_over h' r) = pack_all self empty_buffers (map (load h) srefs)"
proof -
  obtain h0 b0 where nb: "new_buffers h = (h0, b0)" by (cases "new_buffers h")
  note o = new_buffers_owned[OF nb]
  from assms(2) nb have run: "store_pack_all self h0 b0 srefs = (ws, h', r)"
    by (simp add: store_run_def)
  note sim = store_pack_all_simulates[OF o(1) assms(1) run]
  from sim o(2) show "same_below (fresh h) h h'" by (blast intro: same_below_trans)
  from sim show "fresh h \<le> fresh h'" by simp
  from sim have "(ws, left_over h' r) = pack_all self empty_buffers (map (load h0) srefs)"
    by (simp add: o(3))
  also have "map (load h0) srefs = map (load h) srefs"
    by (rule same_below_loads[OF o(2) assms(1)])
  finally show "(ws, left_over h' r) = pack_all self empty_buffers (map (load h) srefs)" .
qed

text \<open>
  Two runs over different objects that hold the same lists, each in a store of its own,
  agree as well: the tokenizer may hand out new lists for the second run.
\<close>

lemma rerun_on_equal_samples:
  assumes "\<forall>s \<in> set srefs. fst s < fresh h \<and> snd s < fresh h"
      and "\<forall>s \<in> set srefs2. fst s < fresh h2 \<and> snd s < fresh h2"
      and "map (load h2) srefs2 = map (load h) srefs"
      and "store_run self h srefs = (ws, h', r)"
      and "store_run self h2 srefs2 = (ws2, h2', r2)"
  shows "(ws2, left_over h2' r2) = (ws, left_over h' r)"
  using store_run_simulates(3)[OF assms(1) assms(4)]
    store_run_simulates(3)[OF assms(2) assms(5)] assms(3)
  by simp

text \<open>
  C9. Take any store and a stream of tokenized samples that are objects of it. Run the
  packing path over the stream, and then run it again over the same objects, in the store
  that the first run left behind (with the first run's buffer objects still in it), by a
  dataset object with the same \<open>sequence_length\<close> and helpers. The second run yields the
  same windows in the same order and ends alike, with the same buffer contents or the same
  error. This holds because the first run changed none of the sample objects, and because
  each run starts from new, empty buffers. The windows are those of the pure packing path
  on the lists the store held at the start.
\<close>

theorem rerun_emits_same_windows:
  assumes allocated: "\<forall>s \<in> set srefs. fst s < fresh h \<and> snd s < fresh h"
      and settings: "sequence_length self' = sequence_length self"
                    "create_labels self' = create_labels self"
                    "create_position_ids self' = create_position_ids self"
      and first: "store_run self h srefs = (ws, h', r)"
      and second: "store_run self' h' srefs = (ws', h'', r')"
  shows "(ws, left_over h' r) = pack_all self empty_buffers (map (load h) srefs)
         \<and> (\<forall>s \<in> set srefs. load h' s = load h s)
         \<and> (ws', left_over h'' r') = (ws, left_over h' r)"
proof -
  note one = store_run_simulates[OF allocated first]
  from allocated one(2)
  have allocated': "\<forall>s \<in> set srefs. fst s < fresh h' \<and> snd s < fresh h'" by fastforce
  note two = store_run_simulates[OF allocated' second]
  have kept: "\<forall>s \<in> set srefs. load h' s = load h s"
    using one(1) allocated by (auto simp: same_below_load)
  then have "map (load h') srefs = map (load h) srefs" by simp
  with two(3) have "(ws', left_over h'' r') = pack_all self' empty_buffers (map (load h) srefs)"
    by simp
  also have "\<dots> = pack_all self empty_buffers (map (load h) srefs)"
    by (rule pack_all_depends_on[OF settings])
  finally show ?thesis using one(3) kept by simp
qed

text \<open>
  The theorem at the example store: both runs, the second by the other example dataset,
  yield the window of the first sample and leave the last two samples buffered, and the
  first sample's objects hold after the first run what they held before.
\<close>

theorem rerun_emits_same_windows_witness:
  "\<exists>h' r h'' r'.
     store_run example_dataset example_store [(0, 0), (1, 1), (2, 2)]
       = ([PackedWindow [1, 2] [0, 1] [0, 1]], h', r)
     \<and> left_over h' r
         = Inr \<lparr> buffer_tokens = [3, 4, 5], buffer_is_completition = [False, True, False],
                 buffer_lengths = [2, 1] \<rparr>
     \<and> load h' (0, 0) = ([1, 2], [False, True])
     \<and> store_run example_sp_dataset h' [(0, 0), (1, 1), (2, 2)]
         = ([PackedWindow [1, 2] [0, 1] [0, 1]], h'', r')
     \<and> left_over h'' r'
         = Inr \<lparr> buffer_tokens = [3, 4, 5], buffer_is_completition = [False, True, False],
                 buffer_lengths = [2, 1] \<rparr>"
proof -
  obtain ws h' r where first:
    "store_run example_dataset example_store [(0, 0), (1, 1), (2, 2)] = (ws, h', r)"
    by (cases "store_run example_dataset example_store [(0, 0), (1, 1), (2, 2)]")
  obtain ws' h'' r' where second:
    "store_run example_sp_dataset h' [(0, 0), (1, 1), (2, 2)] = (ws', h'', r')"
    by (cases "store_run example_sp_dataset h' [(0, 0), (1, 1), (2, 2)]")
  have allocated: "\<forall>s \<in> set [(0, 0), (1, 1), (2, 2)].
                     fst s < fresh example_store \<and> snd s < fresh example_store"
    by (simp add: example_store_def)
  have settings: "sequence_length example_sp_dataset = sequence_length example_dataset"
    "create_labels example_sp_dataset = create_labels example_dataset"
    "create_position_ids example_sp_dataset = create_position_ids example_dataset"
    by (simp_all add: example_dataset_def example_sp_dataset_def ChatDataset_init_def)
  have loaded: "map (load example_store) [(0, 0), (1, 1), (2, 2)]
                  = [([1, 2], [False, True]), ([3, 4], [False, True]), ([5], [False])]"
    by (simp add: load_def example_store_def)
  have pure: "pack_all example_dataset empty_buffers
       [([1, 2], [False, True]), ([3, 4], [False, True]), ([5], [False])]
     = ([PackedWindow [1, 2] [0, 1] [0, 1]],
        Inr \<lparr> buffer_tokens = [3, 4, 5], buffer_is_completition = [False, True, False],
              buffer_lengths = [2, 1] \<rparr>)"
    by (simp add: pack_eval eval_nat_numeral)
  from rerun_emits_same_windows[OF allocated settings first second, unfolded loaded pure]
  have "ws = [PackedWindow [1, 2] [0, 1] [0, 1]]"
    and "left_over h' r
         = Inr \<lparr> buffer_tokens = [3, 4, 5], buffer_is_completition = [False, True, False],
                 buffer_lengths = [2, 1] \<rparr>"
    and "load h' (0, 0) = load example_store (0, 0)"
    and "ws' = ws" and "left_over h'' r' = left_over h' r"
    by simp_all
  moreover have "load example_store (0, 0) = ([1, 2], [False, True])"
    by (simp add: load_def example_store_def)
  ultimately show ?thesis using first second by auto
qed

subsection \<open>The overflow scenario\<close>

text \<open>
  C4. With \<open>sequence_length = 150\<close>, feed three samples of 100, 50 and 80 tokens (each
  with as many flags) into the empty buffers. The first two steps yield nothing and leave
  the two samples buffered. The third step yields one window: its \<open>input_ids\<close> are the
  first two samples, 150 tokens, cut with the sample lengths \<open>[100, 50]\<close>; the buffers are
  left holding the third sample alone, with \<open>buffer_lengths = [80]\<close>.
\<close>

theorem overflow_scenario:
  assumes sl: "sequence_length self = 150"
      and l1: "length t1 = 100" "length c1 = 100"
      and l2: "length t2 = 50" "length c2 = 50"
      and l3: "length t3 = 80" "length c3 = 80"
  shows "\<exists>w. pack_sample self empty_buffers (t1, c1)
               = Inr (\<lparr> buffer_tokens = t1, buffer_is_completition = c1,
                         buffer_lengths = [100] \<rparr>, None)
           \<and> pack_sample self \<lparr> buffer_tokens = t1, buffer_is_completition = c1,
                                 buffer_lengths = [100] \<rparr> (t2, c2)
               = Inr (\<lparr> buffer_tokens = t1 @ t2, buffer_is_completition = c1 @ c2,
                         buffer_lengths = [100, 50] \<rparr>, None)
           \<and> pack_sample self \<lparr> buffer_tokens = t1 @ t2, buffer_is_completition = c1 @ c2,
                                 buffer_lengths = [100, 50] \<rparr> (t3, c3)
               = Inr (\<lparr> buffer_tokens = t3, buffer_is_completition = c3,
                         buffer_lengths = [80] \<rparr>, Some w)
           \<and> input_ids w = t1 @ t2
           \<and> length (input_ids w) = 150
           \<and> pop_last_sample
                 (extend_buffers \<lparr> buffer_tokens = t1 @ t2, buffer_is_completition = c1 @ c2,
                                   buffer_lengths = [100, 50] \<rparr> (t3, c3)) (length t3)
               = (t1 @ t2, c1 @ c2, [100, 50])
           \<and> pack_all self empty_buffers [(t1, c1), (t2, c2), (t3, c3)]
               = ([w], Inr \<lparr> buffer_tokens = t3, buffer_is_completition = c3,
                               buffer_lengths = [80] \<rparr>)"
proof -
  have s1: "pack_sample self empty_buffers (t1, c1)
               = Inr (\<lparr> buffer_tokens = t1, buffer_is_completition = c1,
                         buffer_lengths = [100] \<rparr>, None)"
    using sl l1 by (simp add: pack_sample_unfold empty_buffers_def extend_buffers_def)
  have s2: "pack_sample self \<lparr> buffer_tokens = t1, buffer_is_completition = c1,
                                 buffer_lengths = [100] \<rparr> (t2, c2)
               = Inr (\<lparr> buffer_tokens = t1 @ t2, buffer_is_completition = c1 @ c2,
                         buffer_lengths = [100, 50] \<rparr>, None)"
    using sl l1 l2 by (simp add: pack_sample_unfold extend_buffers_def)
  have n1: "neg_slice ((t1 @ t2) @ t3) (length t3) = t1 @ t2"
    using l3 by (intro neg_slice_append_last) auto
  have n2: "neg_slice ((c1 @ c2) @ c3) (length t3) = c1 @ c2"
    using l3 by (intro neg_slice_append_same_length) auto
  define w where "w = PackedWindow (t1 @ t2)
      (map (\<lambda>x. if x then 1 else 0) (create_labels self (t1 @ t2) (c1 @ c2)))
      (create_position_ids self [100, 50] (sequence_length self))"
  have s3: "pack_sample self \<lparr> buffer_tokens = t1 @ t2, buffer_is_completition = c1 @ c2,
                                 buffer_lengths = [100, 50] \<rparr> (t3, c3)
               = Inr (\<lparr> buffer_tokens = t3, buffer_is_completition = c3,
                         buffer_lengths = [80] \<rparr>, Some w)"
    unfolding pack_sample_unfold w_def using sl l1 l2 l3 n1 n2 by simp
  have p: "pop_last_sample
                 (extend_buffers \<lparr> buffer_tokens = t1 @ t2, buffer_is_completition = c1 @ c2,
                                   buffer_lengths = [100, 50] \<rparr> (t3, c3)) (length t3)
               = (t1 @ t2, c1 @ c2, [100, 50])"
    using n1 n2 by (simp add: pop_last_sample_extend)
  have i: "input_ids w = t1 @ t2" "length (input_ids w) = 150"
    using l1 l2 by (simp_all add: w_def)
  have a: "pack_all self empty_buffers [(t1, c1), (t2, c2), (t3, c3)]
               = ([w], Inr \<lparr> buffer_tokens = t3, buffer_is_completition = c3,
                               buffer_lengths = [80] \<rparr>)"
    by (simp add: s1 s2 s3)
  from s1 s2 s3 p i a show ?thesis by blast
qed

text \<open>The theorem at three samples of constant tokens.\<close>

theorem overflow_scenario_witness:
  "\<exists>w. pack_all (example_dataset\<lparr>sequence_length := 150\<rparr>) empty_buffers
          [(replicate 100 1, replicate 100 False), (replicate 50 2, replicate 50 True),
           (replicate 80 3, replicate 80 False)]
        = ([w], Inr \<lparr> buffer_tokens = replicate 80 3,
                        buffer_is_completition = replicate 80 False,
                        buffer_lengths = [80] \<rparr>)
      \<and> input_ids w = replicate 100 1 @ replicate 50 2
      \<and> length (input_ids w) = 150"
proof -
  have sl: "sequence_length (example_dataset\<lparr>sequence_length := 150\<rparr>) = 150"
    by simp
  have l1: "length (replicate 100 (1 :: int)) = 100" "length (replicate 100 False) = 100"
    and l2: "length (replicate 50 (2 :: int)) = 50" "length (replicate 50 True) = 50"
    and l3: "length (replicate 80 (3 :: int)) = 80" "length (replicate 80 False) = 80"
    by simp_all
  from overflow_scenario[OF sl l1 l2 l3] show ?thesis by blast
qed

section \<open>Properties of the non-packing path\<close>

lemma round_up_multiple:
  fixes L c :: int
  assumes "0 < c" "L mod c \<noteq> 0"
  shows "(L + (c - L mod c)) mod c = 0"
proof -
  have "L = c * (L div c) + L mod c" by simp
  then have "L + (c - L mod c) = c * (L div c + 1)" by (simp add: algebra_simps)
  then show ?thesis by simp
qed

lemma sp_chunks_init:
  "sp_chunks (ChatDataset_init tokenizer template pad records n completions_only
       no_cross_attention pack sp_ranks_size)
     = (if sp_ranks_size > 1 then 2 * sp_ranks_size else 1)"
  by (simp add: ChatDataset_init_def)

text \<open>
  C7. Let \<open>sp_chunks\<close> be \<open>2 * sp_ranks_size\<close> when \<open>sp_ranks_size > 1\<close> and \<open>1\<close>
  otherwise, as \<open>__init__\<close> sets it. When the label helper returns one entry for each
  token, the non-packing path yields an item. Every item it yields has \<open>input_ids\<close>,
  \<open>input_mask\<close> and \<open>label_mask\<close> of the same length; that length is \<open>m\<close>, the least
  multiple of \<open>sp_chunks\<close> that is at least the sample length, plus one when
  \<open>sp_chunks > 1\<close>; and the \<open>input_ids\<close> are the sample's tokens followed by pad tokens
  only.
\<close>

theorem padded_item_length:
  assumes chunks: "sp_chunks self = (if sp_ranks_size > 1 then 2 * sp_ranks_size else 1)"
  shows "(length (create_labels self tokens is_completition) = length tokens
            \<longrightarrow> (\<exists>out. pad_sample self (tokens, is_completition) = Inr out))
         \<and> (\<forall>out. pad_sample self (tokens, is_completition) = Inr out \<longrightarrow>
               length (input_mask out) = length (input_ids out)
               \<and> length (label_mask out) = length (input_ids out)
               \<and> (\<exists>m. int m mod sp_chunks self = 0
                      \<and> length tokens \<le> m
                      \<and> int m < int (length tokens) + sp_chunks self
                      \<and> length (input_ids out) = m + (if sp_chunks self > 1 then 1 else 0))
               \<and> input_ids out
                    = tokens @ replicate (length (input_ids out) - length tokens)
                                 (pad_token_id self))"
proof -
  define c where "c = sp_chunks self"
  define L where "L = length tokens"
  define labels where "labels = create_labels self tokens is_completition"
  have cpos: "0 < c" using chunks by (simp add: c_def split: if_splits)
  define k where "k = (if int L mod c \<noteq> 0 then nat (c - int L mod c) else 0)"
  define e where "e = (if c > 1 then 1 else 0 :: nat)"
  define item where "item = NonPackedItem (tokens @ replicate (k + e) (pad_token_id self))
      (replicate L 1 @ replicate (k + e) 0)
      (map (\<lambda>x. if x then 1 else 0) (labels @ replicate (k + e) False))"
  have run: "pad_sample self (tokens, is_completition)
               = (if L = length labels then Inr item else Inl AssertionError)"
    using cpos
    by (simp add: pad_sample_def Let_def c_def[symmetric] L_def[symmetric] labels_def[symmetric]
        item_def k_def e_def replicate_add)
  have m0: "int (L + k) mod c = 0"
  proof (cases "int L mod c = 0")
    case True
    then show ?thesis by (simp add: k_def)
  next
    case False
    have "int L mod c < c" using cpos by simp
    then have "int (L + k) = int L + (c - int L mod c)" using False by (simp add: k_def)
    then show ?thesis using round_up_multiple[OF cpos False] by simp
  qed
  have klt: "int k < c"
  proof (cases "int L mod c = 0")
    case True
    then show ?thesis using cpos by (simp add: k_def)
  next
    case False
    have "0 \<le> int L mod c" using cpos by simp
    with False have "0 < int L mod c" by linarith
    then show ?thesis using False cpos by (simp add: k_def)
  qed
  have emits: "\<exists>out. pad_sample self (tokens, is_completition) = Inr out"
    if "length labels = length tokens"
    using that by (simp add: run L_def)
  have shape: "length (input_mask out) = length (input_ids out)
               \<and> length (label_mask out) = length (input_ids out)
               \<and> (\<exists>m. int m mod sp_chunks self = 0
                      \<and> length tokens \<le> m
                      \<and> int m < int (length tokens) + sp_chunks self
                      \<and> length (input_ids out) = m + (if sp_chunks self > 1 then 1 else 0))
               \<and> input_ids out
                    = tokens @ replicate (length (input_ids out) - length tokens)
                                 (pad_token_id self)"
    if "pad_sample self (tokens, is_completition) = Inr out" for out
  proof -
    from that have same: "L = length labels" and out: "out = item"
      by (simp_all add: run split: if_splits)
    have "int (L + k) mod sp_chunks self = 0 \<and> length tokens \<le> L + k
            \<and> int (L + k) < int (length tokens) + sp_chunks self
            \<and> length (input_ids out) = (L + k) + (if sp_chunks self > 1 then 1 else 0)"
      using m0 klt by (simp add: out item_def c_def L_def e_def)
    then have "\<exists>m. int m mod sp_chunks self = 0
                      \<and> length tokens \<le> m
                      \<and> int m < int (length tokens) + sp_chunks self
                      \<and> length (input_ids out) = m + (if sp_chunks self > 1 then 1 else 0)"
      by (rule exI)
    moreover have "length (input_mask out) = length (input_ids out)"
      "length (label_mask out) = length (input_ids out)"
      "input_ids out = tokens @ replicate (length (input_ids out) - length tokens)
                                  (pad_token_id self)"
      using same by (simp_all add: out item_def L_def)
    ultimately show ?thesis by simp
  qed
  from emits shape show ?thesis unfolding labels_def by blast
qed

text \<open>
  The theorem at a sample of five tokens with \<open>sp_ranks_size = 2\<close>: the multiple of four
  is eight, and the item has nine positions.
\<close>

theorem padded_item_length_witness:
  "sp_chunks example_sp_dataset = 4
   \<and> (\<exists>out. pad_sample example_sp_dataset ([1, 2, 3, 4, 5], [False, True, False, True, False])
                = Inr out
              \<and> length (input_ids out) = 9
              \<and> length (input_mask out) = 9
              \<and> length (label_mask out) = 9)"
proof -
  have four: "sp_chunks example_sp_dataset = 4"
    by (simp add: example_sp_dataset_def sp_chunks_init)
  have chunks: "sp_chunks example_sp_dataset = (if (2 :: int) > 1 then 2 * 2 else 1)"
    by (simp add: four)
  have labels: "length (create_labels example_sp_dataset [1, 2, 3, 4, 5]
                   [False, True, False, True, False]) = length [1, 2, 3, 4, 5 :: int]"
    unfolding example_sp_dataset_def by (rule helpers_init)
  note item = padded_item_length[OF chunks, of "[1, 2, 3, 4, 5]"
      "[False, True, False, True, False]"]
  from item labels obtain out where
    out: "pad_sample example_sp_dataset ([1, 2, 3, 4, 5], [False, True, False, True, False])
            = Inr out"
    by (elim conjE impE exE)
  from item have "length (input_mask out) = length (input_ids out)
      \<and> length (label_mask out) = length (input_ids out)
      \<and> (\<exists>m. int m mod sp_chunks example_sp_dataset = 0
             \<and> length [1, 2, 3, 4, 5 :: int] \<le> m
             \<and> int m < int (length [1, 2, 3, 4, 5 :: int]) + sp_chunks example_sp_dataset
             \<and> length (input_ids out)
                  = m + (if sp_chunks example_sp_dataset > 1 then 1 else 0))"
    using out by simp
  then obtain m where
    same: "length (input_mask out) = length (input_ids out)"
          "length (label_mask out) = length (input_ids out)"
    and m: "int m mod sp_chunks example_sp_dataset = 0"
           "length [1, 2, 3, 4, 5 :: int] \<le> m"
           "int m < int (length [1, 2, 3, 4, 5 :: int]) + sp_chunks example_sp_dataset"
    and len: "length (input_ids out) = m + (if sp_chunks example_sp_dataset > 1 then 1 else 0)"
    by (elim exE conjE) (rule that)
  from m have "m = 8" unfolding four by simp presburger
  with len four same have "length (input_ids out) = 9" "length (input_mask out) = 9"
    "length (label_mask out) = 9" by simp_all
  with out four show ?thesis by blast
qed

section \<open>Properties of the generator\<close>

lemma process_sample_source:
  "process_sample self st r = Inr (st', out) \<Longrightarrow> source st' = source st"
  by (auto simp: process_sample_def split: prod.splits if_splits sum.splits)

lemma iter_step_source:
  assumes "iter_step self st = Inr (st', out)" and "source st \<noteq> []"
  shows "source st' = tl (source st)"
  using assms process_sample_source[of self _ _ st' out]
  by (cases "source st") (auto simp: iter_step_def)

lemma iter_run_source:
  assumes "iter_run self k st = (outs, Inr st')" and "k \<le> length (source st)"
  shows "source st' = drop k (source st)"
  using assms
proof (induction k arbitrary: st outs)
  case 0
  then show ?case by simp
next
  case (Suc k)
  from Suc.prems(1) obtain st1 out outs1 where
    step: "iter_step self st = Inr (st1, out)"
    and rest: "iter_run self k st1 = (outs1, Inr st')"
    by (auto split: sum.splits prod.splits)
  from Suc.prems(2) have ne: "source st \<noteq> []" by auto
  from iter_step_source[OF step ne] have s1: "source st1 = tl (source st)" .
  with Suc.prems(2) have "k \<le> length (source st1)" by simp
  from Suc.IH[OF rest this] s1 show ?case by (simp add: drop_Suc)
qed

text \<open>
  C8. Run the generator for as many steps as the current pass has records left, without
  an error. Then the pass is exhausted, and the next step yields nothing, prints the
  re-loop message and opens a new pass over the whole dataset, with the buffers (tokens,
  completion flags and sample lengths) exactly as they were; the step after that processes
  the first record of the dataset, against those buffers.
\<close>

theorem restart_keeps_buffers:
  assumes "iter_run self (length (source st)) st = (outs, Inr st1)"
  shows "source st1 = []
         \<and> iter_step self st1
             = Inr (st1\<lparr>source := dataset self, relooped := relooped st1 + 1\<rparr>, None)
         \<and> buffers (st1\<lparr>source := dataset self, relooped := relooped st1 + 1\<rparr>) = buffers st1
         \<and> (\<forall>r rs. dataset self = r # rs \<longrightarrow>
               iter_step self (st1\<lparr>source := dataset self, relooped := relooped st1 + 1\<rparr>)
                 = process_sample self
                     (st1\<lparr>source := dataset self, relooped := relooped st1 + 1, source := rs\<rparr>) r)"
proof -
  from iter_run_source[OF assms] have e: "source st1 = []" by simp
  then show ?thesis by (simp add: iter_step_def)
qed

text \<open>
  The theorem at the example dataset, from the start: after its three records the buffers
  hold the last two samples, the restart keeps them, and the first record, pulled again,
  pushes them out as a window.
\<close>

theorem restart_keeps_buffers_witness:
  "iter_run example_dataset (length (source (iter_init example_dataset)))
       (iter_init example_dataset)
     = ([PackedWindow [1, 2] [0, 1] [0, 1]],
        Inr \<lparr> source = [],
              buffers = \<lparr> buffer_tokens = [3, 4, 5],
                          buffer_is_completition = [False, True, False],
                          buffer_lengths = [2, 1] \<rparr>,
              num_samples = 0, relooped = 0 \<rparr>)
   \<and> iter_step example_dataset
         \<lparr> source = [],
           buffers = \<lparr> buffer_tokens = [3, 4, 5],
                       buffer_is_completition = [False, True, False],
                       buffer_lengths = [2, 1] \<rparr>,
           num_samples = 0, relooped = 0 \<rparr>
       = Inr (\<lparr> source = [[1, 2], [3, 4], [5]],
                 buffers = \<lparr> buffer_tokens = [3, 4, 5],
                             buffer_is_completition = [False, True, False],
                             buffer_lengths = [2, 1] \<rparr>,
                 num_samples = 0, relooped = 1 \<rparr>, None)
   \<and> iter_step example_dataset
         \<lparr> source = [[1, 2], [3, 4], [5]],
           buffers = \<lparr> buffer_tokens = [3, 4, 5],
                       buffer_is_completition = [False, True, False],
                       buffer_lengths = [2, 1] \<rparr>,
           num_samples = 0, relooped = 1 \<rparr>
       = Inr (\<lparr> source = [[3, 4], [5]],
                 buffers = \<lparr> buffer_tokens = [1, 2],
                             buffer_is_completition = [False, True],
                             buffer_lengths = [2] \<rparr>,
                 num_samples = 0, relooped = 1 \<rparr>,
              Some (PackedWindow [3, 4, 5] [0, 1, 0] [0, 1, 0]))"
proof -
  have run: "iter_run example_dataset (length (source (iter_init example_dataset)))
       (iter_init example_dataset)
     = ([PackedWindow [1, 2] [0, 1] [0, 1]],
        Inr \<lparr> source = [],
              buffers = \<lparr> buffer_tokens = [3, 4, 5],
                          buffer_is_completition = [False, True, False],
                          buffer_lengths = [2, 1] \<rparr>,
              num_samples = 0, relooped = 0 \<rparr>)"
    by (simp add: iter_init_def iter_step_def process_sample_def pack_eval eval_nat_numeral)
  from restart_keeps_buffers[OF run] run show ?thesis
    by (simp add: process_sample_def pack_eval eval_nat_numeral)
qed

end
